theory Spec2Isabelle
  imports Main "HOL-Library.List_Lexorder" "HOL-Library.Char_ord"
begin

section \<open>Strings: Python's \<open>split\<close> and \<open>join\<close>\<close>

text \<open>
  The models in \<^verbatim>\<open>lastuser_core/models/client.py\<close> keep a set of tokens in one
  text column, written with \<^verbatim>\<open>u' '.join(...)\<close> and read back with
  \<^verbatim>\<open>.split(u' ')\<close>. Strings are lists of characters, ordered
  lexicographically by character code as Python orders them.

  \<open>str_split sep s\<close> is \<^verbatim>\<open>s.split(sep)\<close> for a one-character separator:
  every occurrence of the separator ends a field, so the result always has one field more
  than there are separators (the empty string gives one empty field).
  \<open>str_join sep ws\<close> is \<^verbatim>\<open>sep.join(ws)\<close>.
\<close>

fun str_split :: "char \<Rightarrow> string \<Rightarrow> string list" where
  "str_split sep [] = [[]]"
| "str_split sep (c # cs) =
     (if c = sep then [] # str_split sep cs
      else (case str_split sep cs of
              [] \<Rightarrow> [[c]]
            | w # ws \<Rightarrow> (c # w) # ws))"

fun str_join :: "char \<Rightarrow> string list \<Rightarrow> string" where
  "str_join sep [] = []"
| "str_join sep [w] = w"
| "str_join sep (w # v # ws) = w @ sep # str_join sep (v # ws)"

section \<open>AuthCode and AuthToken\<close>

text \<open>
  The columns of the two tables. The column \<^verbatim>\<open>_scope\<close> is the field \<open>scope\<close>,
  the column \<^verbatim>\<open>_algorithm\<close> the field \<open>algorithm\<close>; a nullable column is an
  \<open>option\<close>. Users and clients are referred to by their keys.
\<close>

record AuthCode =
  user_id :: nat
  client_id :: nat
  code :: string
  scope :: string
  redirect_uri :: string
  used :: bool

record AuthToken =
  user_id :: "nat option"
  client_id :: nat
  token :: string
  token_type :: string
  secret :: "string option"
  algorithm :: "string option"
  scope :: string
  validity :: int
  refresh_token :: "string option"

text \<open>
  A value assigned to a \<^verbatim>\<open>scope\<close> property is a Python iterable: a list, or a set.
  Python does not fix the order in which a set is listed, so \<^verbatim>\<open>list(s)\<close> and
  iteration over a set take that order as a parameter \<open>ord\<close>, a function from a set to
  a list of its elements; \<^verbatim>\<open>sorted(s)\<close> needs none.
\<close>

datatype iterable = PyList "string list" | PySet "string set"

type_synonym set_order = "string set \<Rightarrow> string list"

fun py_iter :: "set_order \<Rightarrow> iterable \<Rightarrow> string list" where
  "py_iter ord (PyList xs) = xs"
| "py_iter ord (PySet S) = ord S"

fun py_set :: "iterable \<Rightarrow> string set" where
  "py_set (PyList xs) = set xs"
| "py_set (PySet S) = S"

fun py_sorted :: "iterable \<Rightarrow> string list" where
  "py_sorted (PyList xs) = sort xs"
| "py_sorted (PySet S) = sorted_list_of_set S"

text \<open>
  A set order is admissible when it lists every set built from a list without repetition
  and without losing or inventing an element.
\<close>

definition set_order_ok :: "set_order \<Rightarrow> bool" where
  "set_order_ok ord \<longleftrightarrow> (\<forall>xs. set (ord (set xs)) = set xs \<and> distinct (ord (set xs)))"

text \<open>The argument of \<^verbatim>\<open>add_scope\<close>: one token as a string, or an iterable of tokens.\<close>

datatype additional = Basestring string | Iterable iterable

fun additional_set :: "additional \<Rightarrow> string set" where
  "additional_set (Basestring s) = set [s]"
| "additional_set (Iterable v) = py_set v"

subsection \<open>AuthCode.scope and AuthCode.add\_scope\<close>

definition AuthCode_scope :: "AuthCode \<Rightarrow> string list" where
  "AuthCode_scope self = str_split CHR '' '' (AuthCode.scope self)"

definition AuthCode_set_scope :: "set_order \<Rightarrow> AuthCode \<Rightarrow> iterable \<Rightarrow> AuthCode" where
  "AuthCode_set_scope ord self v = self\<lparr>AuthCode.scope := str_join CHR '' '' (py_iter ord v)\<rparr>"

definition AuthCode_add_scope :: "set_order \<Rightarrow> AuthCode \<Rightarrow> additional \<Rightarrow> AuthCode" where
  "AuthCode_add_scope ord self a =
     AuthCode_set_scope ord self
       (PyList (ord (set (AuthCode_scope self) \<union> additional_set a)))"

subsection \<open>AuthToken.scope, add\_scope, refresh and algorithm\<close>

definition AuthToken_scope :: "AuthToken \<Rightarrow> string list" where
  "AuthToken_scope self = str_split CHR '' '' (AuthToken.scope self)"

definition AuthToken_set_scope :: "AuthToken \<Rightarrow> iterable \<Rightarrow> AuthToken" where
  "AuthToken_set_scope self v = self\<lparr>AuthToken.scope := str_join CHR '' '' (py_sorted v)\<rparr>"

definition AuthToken_add_scope :: "set_order \<Rightarrow> AuthToken \<Rightarrow> additional \<Rightarrow> AuthToken" where
  "AuthToken_add_scope ord self a =
     AuthToken_set_scope self
       (PyList (ord (set (AuthToken_scope self) \<union> additional_set a)))"

text \<open>
  \<^verbatim>\<open>refresh\<close> draws two random strings, \<^verbatim>\<open>newid()\<close> and
  \<^verbatim>\<open>newsecret()\<close>; the model takes them as arguments.
\<close>

definition AuthToken_refresh :: "string \<Rightarrow> string \<Rightarrow> AuthToken \<Rightarrow> AuthToken" where
  "AuthToken_refresh newid newsecret self =
     (if refresh_token self \<noteq> None
      then self\<lparr>token := newid, secret := Some newsecret\<rparr>
      else self)"

text \<open>
  The setter of \<^verbatim>\<open>algorithm\<close> raises \<^verbatim>\<open>ValueError\<close> on an unrecognized
  value. The model returns the object as the call leaves it, with the exception raised,
  if any.
\<close>

datatype error = ValueError | TypeError

definition AuthToken_set_algorithm :: "AuthToken \<Rightarrow> string option \<Rightarrow> error option \<times> AuthToken" where
  "AuthToken_set_algorithm self v =
     (case v of
        None \<Rightarrow> (None, self\<lparr>algorithm := None, secret := None\<rparr>)
      | Some a \<Rightarrow>
          if a \<in> set [''hmac-sha-1'', ''hmac-sha-256'']
          then (None, self\<lparr>algorithm := Some a\<rparr>)
          else (Some ValueError, self))"

text \<open>The values that the column \<open>algorithm\<close> may hold.\<close>

definition algorithm_ok :: "AuthToken \<Rightarrow> bool" where
  "algorithm_ok t \<longleftrightarrow>
     algorithm t \<in> set [None, Some ''hmac-sha-1'', Some ''hmac-sha-256'']"

section \<open>Lookups: Permission.get and User.get\<close>

text \<open>
  A query is the list of the table's rows in the order the store returns them;
  \<^verbatim>\<open>.filter_by(...)\<close> keeps the matching rows and \<^verbatim>\<open>.first()\<close> returns the
  first of them, or None. A user or organization passed to \<^verbatim>\<open>Permission.get\<close> is
  an object (given by its key) or None, and an object is true in a condition.
\<close>

definition first :: "'a list \<Rightarrow> 'a option" where
  "first rows = (case rows of [] \<Rightarrow> None | r # _ \<Rightarrow> Some r)"

record Permission =
  user_id :: "nat option"
  org_id :: "nat option"
  name :: string
  title :: string
  description :: string
  allusers :: bool

definition Permission_get ::
  "Permission list \<Rightarrow> string \<Rightarrow> nat option \<Rightarrow> nat option \<Rightarrow> bool \<Rightarrow> error + Permission option" where
  "Permission_get query nm user org all =
     (if all then
        Inr (first (filter (\<lambda>p. Permission.name p = nm \<and> allusers p = True) query))
      else if \<not> ((user \<noteq> None) \<noteq> (org \<noteq> None)) then Inl TypeError
      else if user \<noteq> None then
        Inr (first (filter (\<lambda>p. Permission.name p = nm \<and> Permission.user_id p = user) query))
      else
        Inr (first (filter (\<lambda>p. Permission.name p = nm \<and> Permission.org_id p = org) query)))"

text \<open>
  The status of a user is a small integer; a user name or user id passed to
  \<^verbatim>\<open>User.get\<close> is a string or None, true in a condition when it is a non-empty
  string.
\<close>

definition USER_STATUS_ACTIVE :: int where "USER_STATUS_ACTIVE = 0"

definition USER_STATUS_SUSPENDED :: int where "USER_STATUS_SUSPENDED = 1"

definition USER_STATUS_MERGED :: int where "USER_STATUS_MERGED = 2"

record User =
  userid :: string
  fullname :: string
  username :: "string option"
  pw_hash :: "string option"
  timezone :: "string option"
  description :: string
  status :: int

definition bool_str :: "string option \<Rightarrow> bool" where
  "bool_str v = (case v of None \<Rightarrow> False | Some s \<Rightarrow> s \<noteq> [])"

definition User_get :: "User list \<Rightarrow> string option \<Rightarrow> string option \<Rightarrow> error + User option" where
  "User_get query uname uid =
     (if \<not> (bool_str uname \<noteq> bool_str uid) then Inl TypeError
      else if bool_str uid then
        Inr (first (filter (\<lambda>u. Some (userid u) = uid \<and> status u = USER_STATUS_ACTIVE) query))
      else
        Inr (first (filter (\<lambda>u. username u = uname \<and> status u = USER_STATUS_ACTIVE) query)))"

section \<open>Organization.\_\_init\_\_\<close>

text \<open>
  An Organization refers to its owners team and a Team to its organization, so the
  objects live in a store and refer to each other by position. The constructor receives
  keyword arguments, of which \<open>owners\<close> and \<open>title\<close> are modelled; the inherited
  constructor assigns each of them to the attribute of its name. A team made by
  \<^verbatim>\<open>Team(title=u"Owners", org=self)\<close> is a new object with these two attributes.
  The other columns of the two tables are left out: the constructor reads none of them.
\<close>

record Team =
  title :: "string option"
  org :: "nat option"

record Organization =
  owners :: "nat option"
  title :: "string option"

record store =
  organizations :: "Organization list"
  teams :: "Team list"

record kwargs =
  owners :: "nat option"
  title :: "string option"

definition Team_init :: "store \<Rightarrow> string \<Rightarrow> nat \<Rightarrow> store \<times> nat" where
  "Team_init s t g =
     (s\<lparr>teams := teams s @ [\<lparr>Team.title = Some t, org = Some g\<rparr>]\<rparr>, length (teams s))"

definition Organization_init :: "store \<Rightarrow> kwargs \<Rightarrow> store \<times> nat" where
  "Organization_init s kw =
     (let self = length (organizations s);
          s1 = s\<lparr>organizations := organizations s @
                  [\<lparr>Organization.owners = kwargs.owners kw, title = kwargs.title kw\<rparr>]\<rparr>
      in if Organization.owners (organizations s1 ! self) = None
         then (let (s2, team) = Team_init s1 ''Owners'' self
               in (s2\<lparr>organizations := (organizations s2)
                        [self := (organizations s2 ! self)\<lparr>Organization.owners := Some team\<rparr>]\<rparr>,
                   self))
         else (s1, self))"

section \<open>Merging two users: the session\<close>

text \<open>
  The two \<^verbatim>\<open>migrate_user\<close> class methods work on the rows of one table that are
  loaded in the session. The loaded rows are a list, and an object is referred to by its
  position in that list, so that an assignment through one reference is seen through
  every other. \<^verbatim>\<open>db.session.delete\<close> marks an object as deleted; the object can
  still be read, and the row is gone from the table when the session is flushed.
\<close>

definition flush :: "'a list \<times> nat list \<Rightarrow> 'a list" where
  "flush s = (case s of (objs, deleted) \<Rightarrow>
     map (\<lambda>i. objs ! i) (filter (\<lambda>i. i \<notin> set deleted) [0..<length objs]))"

subsection \<open>AuthToken.migrate\_user\<close>

text \<open>
  \<^verbatim>\<open>cls.query.filter_by(user=u).all()\<close> gives the objects whose user is \<open>u\<close>, in
  table order. \<open>newtokens\<close> is the dictionary from a client to the list of the new
  user's tokens for it, built with \<^verbatim>\<open>setdefault(...).append(...)\<close>. A user passed
  to the method is an object (given by its key) or None.
\<close>

definition AuthToken_filter_by_user :: "AuthToken list \<Rightarrow> nat \<Rightarrow> nat list" where
  "AuthToken_filter_by_user objs u =
     filter (\<lambda>r. AuthToken.user_id (objs ! r) = Some u) [0..<length objs]"

definition setdefault_append :: "('k \<rightharpoonup> 'v list) \<Rightarrow> 'k \<Rightarrow> 'v \<Rightarrow> ('k \<rightharpoonup> 'v list)" where
  "setdefault_append d k v = d(k \<mapsto> (case d k of None \<Rightarrow> [] | Some l \<Rightarrow> l) @ [v])"

definition newtokens_of :: "AuthToken list \<Rightarrow> nat list \<Rightarrow> (nat \<rightharpoonup> nat list)" where
  "newtokens_of objs rs =
     foldl (\<lambda>d r. setdefault_append d (AuthToken.client_id (objs ! r)) r) Map.empty rs"

text \<open>
  One round of the loop over \<open>oldtokens\<close>, for the old token \<open>r\<close>. The inner
  loop looks, among the tokens listed in \<open>newtokens\<close> for the client of \<open>r\<close>, for
  the first one whose user is the new user, and stops there: the scope of that token
  becomes the union of the two scopes and the old token is deleted. When there is none,
  the old token is handed to the new user.
\<close>

definition find_newtoken :: "nat \<Rightarrow> (nat \<rightharpoonup> nat list) \<Rightarrow> AuthToken list \<Rightarrow> nat \<Rightarrow> nat option" where
  "find_newtoken newuser newtokens objs r =
     (case newtokens (AuthToken.client_id (objs ! r)) of
        None \<Rightarrow> None
      | Some cands \<Rightarrow> find (\<lambda>n. AuthToken.user_id (objs ! n) = Some newuser) cands)"

definition extend_scope :: "AuthToken \<Rightarrow> AuthToken \<Rightarrow> AuthToken" where
  "extend_scope newtoken oldtoken =
     AuthToken_set_scope newtoken
       (PySet (set (AuthToken_scope newtoken) \<union> set (AuthToken_scope oldtoken)))"

definition migrate_token ::
  "nat \<Rightarrow> (nat \<rightharpoonup> nat list) \<Rightarrow> AuthToken list \<times> nat list \<Rightarrow> nat \<Rightarrow> AuthToken list \<times> nat list" where
  "migrate_token newuser newtokens s r = (case s of (objs, deleted) \<Rightarrow>
     (case find_newtoken newuser newtokens objs r of
        Some n \<Rightarrow> (objs[n := extend_scope (objs ! n) (objs ! r)], r # deleted)
      | None \<Rightarrow> (objs[r := (objs ! r)\<lparr>AuthToken.user_id := Some newuser\<rparr>], deleted)))"

definition AuthToken_migrate_user ::
  "nat option \<Rightarrow> nat option \<Rightarrow> AuthToken list \<Rightarrow> AuthToken list" where
  "AuthToken_migrate_user olduser newuser table =
     (case (olduser, newuser) of
        (Some ou, Some nu) \<Rightarrow>
          (let oldtokens = AuthToken_filter_by_user table ou;
               newtokens = newtokens_of table (AuthToken_filter_by_user table nu)
           in flush (foldl (migrate_token nu newtokens) (table, []) oldtokens))
      | _ \<Rightarrow> table)"

subsection \<open>UserClientPermissions.migrate\_user\<close>

record UserClientPermissions =
  user_id :: nat
  client_id :: nat
  access_permissions :: string

text \<open>
  \<^verbatim>\<open>olduser.client_permissions\<close> and \<^verbatim>\<open>newuser.client_permissions\<close> are the
  two sides of the relationship \<^verbatim>\<open>UserClientPermissions.user\<close>, declared with
  \<^verbatim>\<open>backref=db.backref('client_permissions', ...)\<close>: each is a list held by the user
  object, loaded with the user's rows in table order, and kept up to date by the
  relationship. The session of this method therefore holds, beside the loaded objects and
  the objects marked as deleted, the two lists as they stand.
\<close>

record permissions_session =
  loaded :: "UserClientPermissions list"
  marked_deleted :: "nat list"
  old_collection :: "nat list"
  new_collection :: "nat list"

definition client_permissions :: "UserClientPermissions list \<Rightarrow> nat \<Rightarrow> nat list" where
  "client_permissions objs u =
     filter (\<lambda>r. UserClientPermissions.user_id (objs ! r) = u) [0..<length objs]"

definition merge_permission_strings :: "string \<Rightarrow> string \<Rightarrow> string" where
  "merge_permission_strings operm nperm =
     (let tokens = set (str_split CHR '' '' operm) \<union> set (str_split CHR '' '' nperm);
          tokens = (if '' '' \<in> tokens then Set.remove '' '' tokens else tokens)
      in str_join CHR '' '' (sorted_list_of_set tokens))"

text \<open>
  One round of the inner loop, for the old row \<open>operm\<close> and the new user's row
  \<open>nperm\<close>. The inner loop has no \<^verbatim>\<open>break\<close>: it visits every row in the new
  user's list. It changes no list: it assigns a permission string and marks the old row
  as deleted, and a row marked as deleted stays in its user's list.
\<close>

definition merge_permission ::
  "nat \<Rightarrow> UserClientPermissions list \<times> nat list \<times> bool \<Rightarrow> nat
   \<Rightarrow> UserClientPermissions list \<times> nat list \<times> bool" where
  "merge_permission operm s nperm = (case s of (objs, deleted, merge_performed) \<Rightarrow>
     if UserClientPermissions.client_id (objs ! nperm) = UserClientPermissions.client_id (objs ! operm)
     then (objs[nperm := (objs ! nperm)\<lparr>access_permissions :=
               merge_permission_strings (access_permissions (objs ! operm))
                 (access_permissions (objs ! nperm))\<rparr>],
           operm # deleted, True)
     else (objs, deleted, merge_performed))"

text \<open>
  \<^verbatim>\<open>operm.user = newuser\<close>. When the row already has that user nothing happens.
  Otherwise the row gets the new user, and the relationship takes it out of the list of
  the user it had (the old user's list, which the outer loop is iterating) and appends it
  to the new user's list.
\<close>

definition set_user :: "nat \<Rightarrow> permissions_session \<Rightarrow> nat \<Rightarrow> permissions_session" where
  "set_user newuser s operm =
     (if UserClientPermissions.user_id (loaded s ! operm) = newuser then s
      else s\<lparr>loaded := (loaded s)
                 [operm := (loaded s ! operm)\<lparr>UserClientPermissions.user_id := newuser\<rparr>],
             old_collection := remove1 operm (old_collection s),
             new_collection := new_collection s @ [operm]\<rparr>)"

definition migrate_permission :: "nat \<Rightarrow> permissions_session \<Rightarrow> nat \<Rightarrow> permissions_session" where
  "migrate_permission newuser s operm =
     (case foldl (merge_permission operm) (loaded s, marked_deleted s, False) (new_collection s) of
        (objs', deleted', merge_performed) \<Rightarrow>
          if \<not> merge_performed
          then set_user newuser (s\<lparr>loaded := objs', marked_deleted := deleted'\<rparr>) operm
          else s\<lparr>loaded := objs', marked_deleted := deleted'\<rparr>)"

text \<open>
  The outer loop, \<^verbatim>\<open>for operm in olduser.client_permissions\<close>. Python iterates a
  list by position: round \<open>i\<close> takes the element at position \<open>i\<close> of the list as
  it is then, and the loop ends when \<open>i\<close> is no longer a position of the list. No
  round lengthens the list, so the loop ends.
\<close>

function migrate_permissions :: "nat \<Rightarrow> nat \<Rightarrow> permissions_session \<Rightarrow> permissions_session" where
  "migrate_permissions newuser i s =
     (if i < length (old_collection s)
      then migrate_permissions newuser (Suc i)
             (migrate_permission newuser s (old_collection s ! i))
      else s)"
  by pat_completeness auto
termination
proof (relation "measure (\<lambda>(newuser, i, s). length (old_collection s) - i)")
  show "wf (measure (\<lambda>(newuser, i, s). length (old_collection s) - i))"
    by simp
next
  fix newuser i :: nat and s :: permissions_session
  assume i: "i < length (old_collection s)"
  let ?r = "old_collection s ! i"
  obtain objs' deleted' merge_performed where
    f: "foldl (merge_permission ?r) (loaded s, marked_deleted s, False) (new_collection s)
          = (objs', deleted', merge_performed)"
    by (cases "foldl (merge_permission ?r) (loaded s, marked_deleted s, False) (new_collection s)")
  have "length (old_collection (migrate_permission newuser s ?r)) \<le> length (old_collection s)"
    by (auto simp: migrate_permission_def f set_user_def length_remove1)
  with i show "((newuser, Suc i, migrate_permission newuser s ?r), (newuser, i, s))
      \<in> measure (\<lambda>(newuser, i, s). length (old_collection s) - i)"
    by simp
qed

definition UserClientPermissions_migrate_user ::
  "nat \<Rightarrow> nat \<Rightarrow> UserClientPermissions list \<Rightarrow> UserClientPermissions list" where
  "UserClientPermissions_migrate_user olduser newuser table =
     (let s = migrate_permissions newuser 0
                \<lparr>loaded = table, marked_deleted = [],
                 old_collection = client_permissions table olduser,
                 new_collection = client_permissions table newuser\<rparr>
      in flush (loaded s, marked_deleted s))"

section \<open>Example data\<close>

text \<open>
  Concrete rows and objects at which the theorems below are instantiated.
\<close>

definition token1 :: AuthToken where
  "token1 = \<lparr>AuthToken.user_id = Some 7, client_id = 1, token = ''t1'',
     token_type = ''bearer'', secret = Some ''s1'', algorithm = Some ''hmac-sha-1'',
     scope = ''email id'', validity = 0, refresh_token = Some ''r1''\<rparr>"

definition token0 :: AuthToken where
  "token0 = \<lparr>AuthToken.user_id = None, client_id = 1, token = ''t0'',
     token_type = ''bearer'', secret = Some ''s0'', algorithm = None,
     scope = ''id'', validity = 0, refresh_token = None\<rparr>"

definition perms :: "Permission list" where
  "perms =
    [\<lparr>Permission.user_id = Some 1, org_id = None, name = ''x'', title = ''mine'',
      description = '''', allusers = False\<rparr>,
     \<lparr>Permission.user_id = None, org_id = Some 5, name = ''x'', title = ''org'',
      description = '''', allusers = False\<rparr>,
     \<lparr>Permission.user_id = Some 2, org_id = None, name = ''x'', title = ''global'',
      description = '''', allusers = True\<rparr>]"

definition users :: "User list" where
  "users =
    [\<lparr>userid = ''u1'', fullname = ''A'', username = Some ''alice'', pw_hash = None,
      timezone = None, description = '''', status = USER_STATUS_MERGED\<rparr>,
     \<lparr>userid = ''u2'', fullname = ''B'', username = Some ''bob'', pw_hash = None,
      timezone = None, description = '''', status = USER_STATUS_SUSPENDED\<rparr>,
     \<lparr>userid = ''u3'', fullname = ''C'', username = Some ''carol'', pw_hash = None,
      timezone = None, description = '''', status = USER_STATUS_ACTIVE\<rparr>]"

definition code_b :: AuthCode where
  "code_b = \<lparr>AuthCode.user_id = 7, client_id = 1, code = ''c'', scope = ''b'',
     redirect_uri = ''https://app/cb'', used = False\<rparr>"

definition descending :: set_order where
  "descending S = rev (sorted_list_of_set S)"

definition store1 :: store where
  "store1 = \<lparr>organizations = [\<lparr>Organization.owners = Some 0, title = Some ''First''\<rparr>],
     teams = [\<lparr>Team.title = Some ''Owners'', org = Some 0\<rparr>]\<rparr>"

definition kwargs1 :: kwargs where
  "kwargs1 = \<lparr>kwargs.owners = None, title = Some ''Second''\<rparr>"

definition kwargs2 :: kwargs where
  "kwargs2 = \<lparr>kwargs.owners = Some 0, title = Some ''Second''\<rparr>"

definition permission_rows :: "UserClientPermissions list" where
  "permission_rows =
    [\<lparr>UserClientPermissions.user_id = 1, client_id = 9, access_permissions = ''''\<rparr>,
     \<lparr>UserClientPermissions.user_id = 2, client_id = 9, access_permissions = ''a''\<rparr>]"

definition unmatched_rows :: "UserClientPermissions list" where
  "unmatched_rows =
    [\<lparr>UserClientPermissions.user_id = 1, client_id = 8, access_permissions = ''x''\<rparr>,
     \<lparr>UserClientPermissions.user_id = 1, client_id = 9, access_permissions = ''y''\<rparr>]"

definition tokens :: "AuthToken list" where
  "tokens =
    [\<lparr>AuthToken.user_id = Some 1, client_id = 9, token = ''t1'', token_type = ''bearer'',
      secret = None, algorithm = None, scope = ''b a'', validity = 0,
      refresh_token = Some ''r1''\<rparr>,
     \<lparr>AuthToken.user_id = Some 2, client_id = 9, token = ''t2'', token_type = ''bearer'',
      secret = None, algorithm = None, scope = ''c a'', validity = 0,
      refresh_token = Some ''r2''\<rparr>,
     \<lparr>AuthToken.user_id = None, client_id = 9, token = ''t3'', token_type = ''bearer'',
      secret = None, algorithm = None, scope = ''x'', validity = 0,
      refresh_token = None\<rparr>,
     \<lparr>AuthToken.user_id = Some 1, client_id = 8, token = ''t4'', token_type = ''bearer'',
      secret = None, algorithm = None, scope = ''z'', validity = 0,
      refresh_token = Some ''r4''\<rparr>]"

section \<open>Verified properties\<close>

subsection \<open>Properties of \<open>split\<close> and \<open>join\<close>\<close>

lemma str_split_not_Nil: "str_split sep s \<noteq> []"
  by (induction s) (auto split: list.splits)

lemma str_split_no_sep: "w \<in> set (str_split sep s) \<Longrightarrow> sep \<notin> set w"
proof (induction s arbitrary: w)
  case Nil
  then show ?case by simp
next
  case (Cons c cs)
  show ?case
  proof (cases "c = sep")
    case True
    with Cons show ?thesis by auto
  next
    case False
    obtain v vs where vs: "str_split sep cs = v # vs"
      using str_split_not_Nil [of sep cs] by (cases "str_split sep cs") auto
    with Cons False show ?thesis by auto
  qed
qed

lemma str_join_split: "str_join sep (str_split sep s) = s"
proof (induction s)
  case Nil
  then show ?case by simp
next
  case (Cons c cs)
  obtain v vs where vs: "str_split sep cs = v # vs"
    using str_split_not_Nil [of sep cs] by (cases "str_split sep cs") auto
  with Cons show ?case by (cases vs) auto
qed

lemma str_split_word: "sep \<notin> set w \<Longrightarrow> str_split sep w = [w]"
  by (induction w) auto

lemma str_split_word_sep:
  "sep \<notin> set w \<Longrightarrow> str_split sep (w @ sep # r) = w # str_split sep r"
  by (induction w) auto

lemma str_split_join:
  "ws \<noteq> [] \<Longrightarrow> \<forall>w\<in>set ws. sep \<notin> set w \<Longrightarrow> str_split sep (str_join sep ws) = ws"
proof (induction sep ws rule: str_join.induct)
  case (1 sep)
  then show ?case by simp
next
  case (2 sep w)
  then show ?case by (simp add: str_split_word)
next
  case (3 sep w v ws)
  then show ?case by (simp add: str_split_word_sep)
qed

lemma sort_not_Nil: "xs \<noteq> [] \<Longrightarrow> sort xs \<noteq> []"
  by (metis length_sort length_0_conv)

subsection \<open>Scope parsing\<close>

text \<open>
  C4, as the code has it. Reading the \<^verbatim>\<open>scope\<close> property of an AuthCode or an
  AuthToken splits the stored string at every single space: joining the fields with one
  space gives the stored string back, and no field holds a space. The empty string does
  not parse to an empty collection: it parses to one field, the empty string, and no
  stored string parses to the empty list.
\<close>

theorem scope_parse_splits_on_single_spaces:
  "str_join CHR '' '' (AuthCode_scope c) = AuthCode.scope c
   \<and> str_join CHR '' '' (AuthToken_scope t) = AuthToken.scope t
   \<and> CHR '' '' \<notin> \<Union> (set ` set (AuthCode_scope c))
   \<and> CHR '' '' \<notin> \<Union> (set ` set (AuthToken_scope t))
   \<and> AuthCode_scope c \<noteq> [] \<and> AuthToken_scope t \<noteq> []
   \<and> AuthCode_scope (c\<lparr>AuthCode.scope := ''''\<rparr>) = ['''']
   \<and> AuthToken_scope (t\<lparr>AuthToken.scope := ''''\<rparr>) = ['''']
   \<and> AuthCode_scope (c\<lparr>AuthCode.scope := ''a  b''\<rparr>) = [''a'', '''', ''b'']"
  by (auto simp: AuthCode_scope_def AuthToken_scope_def str_join_split str_split_not_Nil
      dest: str_split_no_sep)

text \<open>
  C4, as the claim states it, fails: the scope of an AuthToken whose stored string is
  empty is not the empty set of tokens.
\<close>

theorem scope_parse_empty_counterexample:
  "set (AuthToken_scope \<lparr>AuthToken.user_id = None, client_id = 1, token = ''t'',
      token_type = ''bearer'', secret = None, algorithm = None, scope = '''',
      validity = 0, refresh_token = None\<rparr>) \<noteq> {}"
  by (simp add: AuthToken_scope_def)

subsection \<open>Round trip of a scope through its serialization\<close>

lemma AuthCode_scope_roundtrip:
  "AuthCode_scope (AuthCode_set_scope ord c (PyList (AuthCode_scope c))) = AuthCode_scope c"
  by (simp add: AuthCode_scope_def AuthCode_set_scope_def str_join_split)

lemma AuthToken_scope_roundtrip:
  "AuthToken_scope (AuthToken_set_scope t (PyList (AuthToken_scope t))) = sort (AuthToken_scope t)"
proof -
  let ?ws = "str_split CHR '' '' (AuthToken.scope t)"
  have "sort ?ws \<noteq> []"
    by (simp add: sort_not_Nil str_split_not_Nil)
  moreover have "\<forall>w\<in>set (sort ?ws). CHR '' '' \<notin> set w"
    by (auto dest: str_split_no_sep)
  ultimately have "str_split CHR '' '' (str_join CHR '' '' (sort ?ws)) = sort ?ws"
    by (rule str_split_join)
  then show ?thesis
    by (simp add: AuthToken_scope_def AuthToken_set_scope_def)
qed

text \<open>
  C6. For every stored scope string, reading the scope, assigning what was read and
  reading again gives the same tokens: for an AuthCode the same list, for an AuthToken
  the sorted list, hence the same set.
\<close>

theorem scope_parse_serialize_parse:
  "set (AuthToken_scope (AuthToken_set_scope t (PyList (AuthToken_scope t))))
     = set (AuthToken_scope t)
   \<and> AuthToken_scope (AuthToken_set_scope t (PyList (AuthToken_scope t)))
     = sort (AuthToken_scope t)
   \<and> AuthCode_scope (AuthCode_set_scope ord c (PyList (AuthCode_scope c)))
     = AuthCode_scope c"
  by (simp add: AuthToken_scope_roundtrip AuthCode_scope_roundtrip)

subsection \<open>AuthToken.refresh\<close>

text \<open>
  C3. On a token with a refresh token, \<^verbatim>\<open>refresh\<close> stores the two new strings
  in \<open>token\<close> and \<open>secret\<close> and leaves every other column, among them the
  refresh token, the scope and the validity, as it was. On a token without a refresh
  token it changes nothing. The model has no error value for this call: the source raises
  none.
\<close>

theorem refresh_rotates_token_and_secret_only:
  "(refresh_token t \<noteq> None \<longrightarrow>
      AuthToken_refresh newid newsecret t = t\<lparr>token := newid, secret := Some newsecret\<rparr>
      \<and> token (AuthToken_refresh newid newsecret t) = newid
      \<and> secret (AuthToken_refresh newid newsecret t) = Some newsecret
      \<and> refresh_token (AuthToken_refresh newid newsecret t) = refresh_token t
      \<and> AuthToken.scope (AuthToken_refresh newid newsecret t) = AuthToken.scope t
      \<and> validity (AuthToken_refresh newid newsecret t) = validity t)
   \<and> (refresh_token t = None \<longrightarrow> AuthToken_refresh newid newsecret t = t)"
  by (simp add: AuthToken_refresh_def)

theorem refresh_rotates_token_and_secret_only_witness:
  "refresh_token token1 \<noteq> None
   \<and> token (AuthToken_refresh ''t2'' ''s2'' token1) = ''t2''
   \<and> secret (AuthToken_refresh ''t2'' ''s2'' token1) = Some ''s2''
   \<and> refresh_token (AuthToken_refresh ''t2'' ''s2'' token1) = Some ''r1''
   \<and> AuthToken.scope (AuthToken_refresh ''t2'' ''s2'' token1) = ''email id''
   \<and> validity (AuthToken_refresh ''t2'' ''s2'' token1) = 0
   \<and> refresh_token token0 = None
   \<and> AuthToken_refresh ''t2'' ''s2'' token0 = token0"
proof -
  have a: "refresh_token token1 \<noteq> None" and b: "refresh_token token0 = None"
    by (simp_all add: token1_def token0_def)
  from a refresh_rotates_token_and_secret_only [of token1 "''t2''" "''s2''"]
  have "AuthToken_refresh ''t2'' ''s2'' token1 = token1\<lparr>token := ''t2'', secret := Some ''s2''\<rparr>"
    by blast
  moreover from b refresh_rotates_token_and_secret_only [of token0 "''t2''" "''s2''"]
  have "AuthToken_refresh ''t2'' ''s2'' token0 = token0"
    by blast
  ultimately show ?thesis
    using a b by (simp add: token1_def)
qed

subsection \<open>AuthToken.algorithm\<close>

text \<open>
  C8. Assigning None to \<^verbatim>\<open>algorithm\<close> clears the algorithm and the secret;
  assigning one of the two recognized names stores it and leaves the secret alone;
  assigning anything else raises ValueError and leaves the whole object as it was. So an
  algorithm column that holds one of the three allowed values holds one of them after any
  assignment.
\<close>

theorem set_algorithm_cases:
  "(v = None \<longrightarrow>
      AuthToken_set_algorithm t v = (None, t\<lparr>algorithm := None, secret := None\<rparr>))
   \<and> (v = Some ''hmac-sha-1'' \<or> v = Some ''hmac-sha-256'' \<longrightarrow>
      fst (AuthToken_set_algorithm t v) = None
      \<and> algorithm (snd (AuthToken_set_algorithm t v)) = v
      \<and> secret (snd (AuthToken_set_algorithm t v)) = secret t
      \<and> snd (AuthToken_set_algorithm t v) = t\<lparr>algorithm := v\<rparr>)
   \<and> (v \<noteq> None \<and> v \<noteq> Some ''hmac-sha-1'' \<and> v \<noteq> Some ''hmac-sha-256'' \<longrightarrow>
      AuthToken_set_algorithm t v = (Some ValueError, t))
   \<and> (algorithm_ok t \<longrightarrow> algorithm_ok (snd (AuthToken_set_algorithm t v)))"
  by (cases v) (auto simp: AuthToken_set_algorithm_def algorithm_ok_def)

theorem set_algorithm_cases_witness:
  "AuthToken_set_algorithm token1 None
     = (None, token1\<lparr>algorithm := None, secret := None\<rparr>)
   \<and> fst (AuthToken_set_algorithm token0 (Some ''hmac-sha-256'')) = None
   \<and> algorithm (snd (AuthToken_set_algorithm token0 (Some ''hmac-sha-256''))) = Some ''hmac-sha-256''
   \<and> secret (snd (AuthToken_set_algorithm token0 (Some ''hmac-sha-256''))) = Some ''s0''
   \<and> AuthToken_set_algorithm token1 (Some ''md5'') = (Some ValueError, token1)
   \<and> algorithm_ok token1
   \<and> algorithm_ok (snd (AuthToken_set_algorithm token1 (Some ''md5'')))"
proof -
  have ok: "algorithm_ok token1"
    by (simp add: algorithm_ok_def token1_def)
  have s0: "secret token0 = Some ''s0''"
    by (simp add: token0_def)
  have ne: "Some ''md5'' \<noteq> None \<and> Some ''md5'' \<noteq> Some ''hmac-sha-1''
      \<and> Some ''md5'' \<noteq> Some ''hmac-sha-256''"
    by simp
  show ?thesis
    using ok s0 ne set_algorithm_cases [of None token1]
      set_algorithm_cases [of "Some ''hmac-sha-256''" token0]
      set_algorithm_cases [of "Some ''md5''" token1]
    by simp
qed

subsection \<open>Lookups: Permission.get and User.get\<close>

lemma first_filter_find: "first (filter P rows) = find P rows"
  by (induction rows) (auto simp: first_def)

lemma first_filter_Some: "first (filter P rows) = Some r \<Longrightarrow> r \<in> set rows \<and> P r"
  by (induction rows) (auto simp: first_def split: if_splits)

lemma first_filter_None: "first (filter P rows) = None \<longleftrightarrow> (\<forall>r\<in>set rows. \<not> P r)"
  by (induction rows) (auto simp: first_def)

text \<open>
  C7. With \<open>allusers\<close> true, \<^verbatim>\<open>Permission.get\<close> returns the first permission of
  that name flagged \<open>allusers\<close>, whatever user and organization are passed along.
  Otherwise it raises TypeError unless exactly one of the two is given, and then returns
  the first permission of that name owned by that user, or by that organization; None
  when there is none.
\<close>

theorem Permission_get_cases:
  "Permission_get q n u g True
     = Inr (find (\<lambda>p. Permission.name p = n \<and> allusers p) q)
   \<and> Permission_get q n u g True = Permission_get q n None None True
   \<and> ((u = None) = (g = None) \<longrightarrow> Permission_get q n u g False = Inl TypeError)
   \<and> (u \<noteq> None \<and> g = None \<longrightarrow> Permission_get q n u g False
        = Inr (find (\<lambda>p. Permission.name p = n \<and> Permission.user_id p = u) q))
   \<and> (u = None \<and> g \<noteq> None \<longrightarrow> Permission_get q n u g False
        = Inr (find (\<lambda>p. Permission.name p = n \<and> Permission.org_id p = g) q))"
  by (auto simp: Permission_get_def first_filter_find)

theorem Permission_get_cases_witness:
  "Permission_get perms ''x'' (Some 1) (Some 5) True = Inr (Some (perms ! 2))
   \<and> Permission_get perms ''x'' None None True = Inr (Some (perms ! 2))
   \<and> Permission_get perms ''x'' (Some 1) (Some 5) False = Inl TypeError
   \<and> Permission_get perms ''x'' None None False = Inl TypeError
   \<and> Permission_get perms ''x'' (Some 1) None False = Inr (Some (perms ! 0))
   \<and> Permission_get perms ''x'' None (Some 5) False = Inr (Some (perms ! 1))
   \<and> Permission_get perms ''y'' None (Some 5) False = Inr None"
  using Permission_get_cases [of perms "''x''" "Some 1" "Some 5"]
    Permission_get_cases [of perms "''x''" None None]
    Permission_get_cases [of perms "''x''" "Some 1" None]
    Permission_get_cases [of perms "''x''" None "Some 5"]
    Permission_get_cases [of perms "''y''" None "Some 5"]
  by (simp add: perms_def)

text \<open>
  C10. \<^verbatim>\<open>User.get\<close> raises TypeError unless exactly one of the user name and the
  user id is supplied (a non-empty string), and otherwise returns a result. A user it
  returns is a row of the table whose status is ACTIVE and whose user id, or user name,
  is the one asked for; so a row whose status is SUSPENDED or MERGED is never returned.
  It returns None exactly when no ACTIVE row matches.
\<close>

theorem User_get_active_only:
  "(bool_str uname = bool_str uid \<longrightarrow> User_get q uname uid = Inl TypeError)
   \<and> (bool_str uname \<noteq> bool_str uid \<longrightarrow> (\<exists>r. User_get q uname uid = Inr r))
   \<and> (User_get q uname uid = Inr (Some u) \<longrightarrow>
        u \<in> set q \<and> status u = USER_STATUS_ACTIVE
        \<and> status u \<noteq> USER_STATUS_SUSPENDED \<and> status u \<noteq> USER_STATUS_MERGED
        \<and> (if bool_str uid then Some (userid u) = uid else username u = uname))
   \<and> (User_get q uname uid = Inr None \<longrightarrow>
        \<not> (\<exists>r\<in>set q. status r = USER_STATUS_ACTIVE
              \<and> (if bool_str uid then Some (userid r) = uid else username r = uname)))"
proof -
  have "User_get q uname uid = Inr (Some u) \<Longrightarrow>
      u \<in> set q \<and> status u = USER_STATUS_ACTIVE
      \<and> (if bool_str uid then Some (userid u) = uid else username u = uname)"
    by (auto simp: User_get_def split: if_splits dest: first_filter_Some)
  moreover have "User_get q uname uid = Inr None \<Longrightarrow>
      \<not> (\<exists>r\<in>set q. status r = USER_STATUS_ACTIVE
              \<and> (if bool_str uid then Some (userid r) = uid else username r = uname))"
    by (auto simp: User_get_def first_filter_None split: if_splits)
  moreover have "USER_STATUS_ACTIVE \<noteq> USER_STATUS_SUSPENDED"
    and "USER_STATUS_ACTIVE \<noteq> USER_STATUS_MERGED"
    by (simp_all add: USER_STATUS_ACTIVE_def USER_STATUS_SUSPENDED_def USER_STATUS_MERGED_def)
  moreover have "bool_str uname = bool_str uid \<Longrightarrow> User_get q uname uid = Inl TypeError"
    by (simp add: User_get_def)
  moreover have "bool_str uname \<noteq> bool_str uid \<Longrightarrow> \<exists>r. User_get q uname uid = Inr r"
    by (simp add: User_get_def)
  ultimately show ?thesis by (intro conjI impI; simp)
qed

theorem User_get_active_only_witness:
  "User_get users (Some ''carol'') (Some ''u3'') = Inl TypeError
   \<and> User_get users None (Some '''') = Inl TypeError
   \<and> User_get users None (Some ''u3'') = Inr (Some (users ! 2))
   \<and> status (users ! 2) = USER_STATUS_ACTIVE
   \<and> User_get users (Some ''alice'') None = Inr None
   \<and> User_get users (Some '''') (Some ''u2'') = Inr None
   \<and> status (users ! 0) = USER_STATUS_MERGED
   \<and> status (users ! 1) = USER_STATUS_SUSPENDED"
proof -
  have e: "User_get users None (Some ''u3'') = Inr (Some (users ! 2))"
    "User_get users (Some ''alice'') None = Inr None"
    "User_get users (Some '''') (Some ''u2'') = Inr None"
    by (simp_all add: User_get_def users_def bool_str_def first_def
        USER_STATUS_ACTIVE_def USER_STATUS_SUSPENDED_def USER_STATUS_MERGED_def)
  have b: "bool_str (Some ''carol'') = bool_str (Some ''u3'')"
    "bool_str None = bool_str (Some '''')"
    by (simp_all add: bool_str_def)
  have "status (users ! 2) = USER_STATUS_ACTIVE"
    using e(1) User_get_active_only [of None "Some ''u3''" users "users ! 2"] by simp
  moreover have "User_get users (Some ''carol'') (Some ''u3'') = Inl TypeError"
    using b(1) User_get_active_only [of "Some ''carol''" "Some ''u3''" users] by simp
  moreover have "User_get users None (Some '''') = Inl TypeError"
    using b(2) User_get_active_only [of None "Some ''''" users] by simp
  moreover have "status (users ! 0) = USER_STATUS_MERGED"
    "status (users ! 1) = USER_STATUS_SUSPENDED"
    by (simp_all add: users_def)
  ultimately show ?thesis using e by simp
qed

subsection \<open>Order of the serialized scope\<close>

lemma sort_set_order:
  assumes "set_order_ok ord"
  shows "sort (ord (set xs)) = sorted_list_of_set (set xs)"
proof -
  from assms have s: "set (ord (set xs)) = set xs" and d: "distinct (ord (set xs))"
    by (simp_all add: set_order_ok_def)
  have "sorted_list_of_set (set (ord (set xs))) = sort (remdups (ord (set xs)))"
    by (rule sorted_list_of_set_sort_remdups)
  with s d show ?thesis by (simp add: distinct_remdups_id)
qed

text \<open>
  C2, as the code has it. Assigning a list to the scope of an AuthCode stores its tokens
  joined in the order of the list, unsorted. \<^verbatim>\<open>add_scope\<close> stores the union of the
  stored tokens and the additional ones, each once, in the order in which the set is
  listed, whatever that order is. For an AuthToken an assigned list is stored sorted, and
  \<^verbatim>\<open>add_scope\<close> stores the sorted union, whatever the order of the set.
\<close>

theorem scope_serialization_order:
  assumes "set_order_ok ord" and "finite (additional_set a)"
  shows "AuthCode.scope (AuthCode_set_scope ord c (PyList xs)) = str_join CHR '' '' xs
    \<and> (\<exists>ys. AuthCode.scope (AuthCode_add_scope ord c a) = str_join CHR '' '' ys
           \<and> distinct ys \<and> set ys = set (AuthCode_scope c) \<union> additional_set a)
    \<and> AuthToken.scope (AuthToken_set_scope t (PyList xs)) = str_join CHR '' '' (sort xs)
    \<and> AuthToken.scope (AuthToken_add_scope ord t a)
           = str_join CHR '' '' (sorted_list_of_set (set (AuthToken_scope t) \<union> additional_set a))
    \<and> sorted (sorted_list_of_set (set (AuthToken_scope t) \<union> additional_set a))"
proof -
  from assms(2) obtain zs where zs: "additional_set a = set zs"
    using finite_list by metis
  have u: "set (AuthCode_scope c) \<union> additional_set a = set (AuthCode_scope c @ zs)"
    and v: "set (AuthToken_scope t) \<union> additional_set a = set (AuthToken_scope t @ zs)"
    by (simp_all add: zs)
  have 1: "AuthCode.scope (AuthCode_set_scope ord c (PyList xs)) = str_join CHR '' '' xs"
    by (simp add: AuthCode_set_scope_def)
  from assms(1) have "distinct (ord (set (AuthCode_scope c @ zs)))"
    and "set (ord (set (AuthCode_scope c @ zs))) = set (AuthCode_scope c @ zs)"
    unfolding set_order_ok_def by blast+
  moreover have "AuthCode.scope (AuthCode_add_scope ord c a)
      = str_join CHR '' '' (ord (set (AuthCode_scope c @ zs)))"
    by (simp add: AuthCode_add_scope_def AuthCode_set_scope_def zs)
  ultimately have 2: "\<exists>ys. AuthCode.scope (AuthCode_add_scope ord c a) = str_join CHR '' '' ys
           \<and> distinct ys \<and> set ys = set (AuthCode_scope c) \<union> additional_set a"
    unfolding u by blast
  have 3: "AuthToken.scope (AuthToken_set_scope t (PyList xs)) = str_join CHR '' '' (sort xs)"
    by (simp add: AuthToken_set_scope_def)
  have 4: "AuthToken.scope (AuthToken_add_scope ord t a)
           = str_join CHR '' '' (sorted_list_of_set (set (AuthToken_scope t) \<union> additional_set a))"
    unfolding v using sort_set_order [OF assms(1), of "AuthToken_scope t @ zs"]
    by (simp add: AuthToken_add_scope_def AuthToken_set_scope_def v)
  have 5: "sorted (sorted_list_of_set (set (AuthToken_scope t) \<union> additional_set a))"
    by simp
  from 1 2 3 4 5 show ?thesis by blast
qed

lemma set_order_ok_descending: "set_order_ok descending"
  by (simp add: set_order_ok_def descending_def)

theorem scope_serialization_order_witness:
  "set_order_ok descending \<and> finite (additional_set (Basestring ''a''))
   \<and> AuthCode.scope (AuthCode_set_scope descending code_b (PyList [''c'', ''a'', ''b''])) = ''c a b''
   \<and> AuthToken.scope (AuthToken_set_scope token0 (PyList [''c'', ''a'', ''b''])) = ''a b c''
   \<and> AuthToken.scope (AuthToken_add_scope descending token0 (Basestring ''a'')) = ''a id''
   \<and> AuthCode.scope (AuthCode_add_scope descending code_b (Basestring ''a'')) = ''b a''"
proof -
  have f: "finite (additional_set (Basestring ''a''))"
    by simp
  have s: "AuthToken_scope token0 = [''id'']"
    by (simp add: AuthToken_scope_def token0_def)
  have "sorted_list_of_set (set (AuthToken_scope token0) \<union> additional_set (Basestring ''a''))
      = [''a'', ''id'']"
    unfolding s by code_simp
  moreover have "AuthCode.scope (AuthCode_add_scope descending code_b (Basestring ''a'')) = ''b a''"
    unfolding AuthCode_add_scope_def AuthCode_set_scope_def AuthCode_scope_def code_b_def
      descending_def
    by code_simp
  ultimately show ?thesis
    using f scope_serialization_order [OF set_order_ok_descending f, of code_b "[''c'', ''a'', ''b'']" token0]
    by (simp add: set_order_ok_descending)
qed

text \<open>
  C2, as the claim states it, fails: adding \<open>a\<close> to an AuthCode whose scope is \<open>b\<close>
  does not give \<open>b a\<close>, the first-seen order, when the set is listed in ascending
  order.
\<close>

theorem add_scope_insertion_order_counterexample:
  "set_order_ok sorted_list_of_set
   \<and> AuthCode_scope code_b = [''b'']
   \<and> AuthCode.scope (AuthCode_add_scope sorted_list_of_set code_b (Basestring ''a'')) = ''a b''
   \<and> AuthCode.scope (AuthCode_add_scope sorted_list_of_set code_b (Basestring ''a'')) \<noteq> ''b a''"
proof -
  have "AuthCode.scope (AuthCode_add_scope sorted_list_of_set code_b (Basestring ''a'')) = ''a b''"
    unfolding AuthCode_add_scope_def AuthCode_set_scope_def AuthCode_scope_def code_b_def
    by code_simp
  moreover have "set_order_ok sorted_list_of_set"
    by (simp add: set_order_ok_def)
  moreover have "AuthCode_scope code_b = [''b'']"
    by (simp add: AuthCode_scope_def code_b_def)
  ultimately show ?thesis by simp
qed

subsection \<open>Organization.\_\_init\_\_\<close>

text \<open>
  C9, as the code has it. After the constructor the owners of the new Organization are
  never None. When no owners team is passed, they are a team made by the constructor,
  titled Owners, whose organization is the new Organization; a team that is passed is
  kept as the owners, and no team is made or changed. The objects that were in the store
  stay as they were.
\<close>

theorem Organization_init_owners:
  "snd (Organization_init s kw) = length (organizations s)
   \<and> Organization.owners (organizations (fst (Organization_init s kw)) ! length (organizations s)) \<noteq> None
   \<and> take (length (organizations s)) (organizations (fst (Organization_init s kw))) = organizations s
   \<and> take (length (teams s)) (teams (fst (Organization_init s kw))) = teams s
   \<and> (kwargs.owners kw = None \<longrightarrow>
        Organization.owners (organizations (fst (Organization_init s kw)) ! length (organizations s))
          = Some (length (teams s))
        \<and> teams (fst (Organization_init s kw))
          = teams s @ [\<lparr>Team.title = Some ''Owners'', org = Some (length (organizations s))\<rparr>])
   \<and> (kwargs.owners kw \<noteq> None \<longrightarrow>
        Organization.owners (organizations (fst (Organization_init s kw)) ! length (organizations s))
          = kwargs.owners kw
        \<and> teams (fst (Organization_init s kw)) = teams s)"
  by (auto simp: Organization_init_def Team_init_def Let_def nth_append)

theorem Organization_init_owners_witness:
  "kwargs.owners kwargs1 = None
   \<and> snd (Organization_init store1 kwargs1) = 1
   \<and> Organization.owners (organizations (fst (Organization_init store1 kwargs1)) ! 1) = Some 1
   \<and> teams (fst (Organization_init store1 kwargs1)) ! 1 = \<lparr>Team.title = Some ''Owners'', org = Some 1\<rparr>
   \<and> kwargs.owners kwargs2 \<noteq> None
   \<and> Organization.owners (organizations (fst (Organization_init store1 kwargs2)) ! 1) = Some 0
   \<and> teams (fst (Organization_init store1 kwargs2)) = teams store1"
proof -
  have k1: "kwargs.owners kwargs1 = None" and k2: "kwargs.owners kwargs2 = Some 0"
    by (simp_all add: kwargs1_def kwargs2_def)
  have l: "length (organizations store1) = 1" "length (teams store1) = 1"
    "teams store1 = [\<lparr>Team.title = Some ''Owners'', org = Some 0\<rparr>]"
    by (simp_all add: store1_def)
  from Organization_init_owners [of store1 kwargs1] k1
  have a: "snd (Organization_init store1 kwargs1) = 1"
    "Organization.owners (organizations (fst (Organization_init store1 kwargs1)) ! 1) = Some 1"
    "teams (fst (Organization_init store1 kwargs1))
       = teams store1 @ [\<lparr>Team.title = Some ''Owners'', org = Some 1\<rparr>]"
    by (simp_all add: l(1,2))
  from Organization_init_owners [of store1 kwargs2] k2
  have b: "Organization.owners (organizations (fst (Organization_init store1 kwargs2)) ! 1) = Some 0"
    "teams (fst (Organization_init store1 kwargs2)) = teams store1"
    by (simp_all add: l(1))
  from a(3) have "teams (fst (Organization_init store1 kwargs1)) ! 1
      = \<lparr>Team.title = Some ''Owners'', org = Some 1\<rparr>"
    by (simp add: l(3))
  with k1 k2 a b show ?thesis by simp
qed

text \<open>
  C9, as the claim states it, fails: constructed with the owners team of the first
  organization, the second organization has owners whose organization is the first.
\<close>

theorem Organization_init_owners_counterexample:
  "snd (Organization_init store1 kwargs2) = 1
   \<and> Organization.owners (organizations (fst (Organization_init store1 kwargs2)) ! 1) = Some 0
   \<and> org (teams (fst (Organization_init store1 kwargs2)) ! 0) = Some 0
   \<and> org (teams (fst (Organization_init store1 kwargs2)) ! 0) \<noteq> Some 1"
  by (simp add: Organization_init_def store1_def kwargs2_def)

subsection \<open>UserClientPermissions.migrate\_user: the stray token and the skipped row\<close>

lemma space_not_a_field: "'' '' \<notin> set (str_split CHR '' '' s)"
  using str_split_no_sep [of "'' ''" "CHR '' ''" s] by auto

lemma merge_permission_strings_union:
  "merge_permission_strings operm nperm =
     str_join CHR '' '' (sorted_list_of_set
       (set (str_split CHR '' '' operm) \<union> set (str_split CHR '' '' nperm)))"
  by (simp add: merge_permission_strings_def space_not_a_field)

text \<open>
  C5. The merge removes the token that is a single space from the union, and no token
  read by splitting at spaces is a single space: the merged string is always the sorted
  union of all the tokens of the two rows, the empty token among them. When the old
  user's row has the empty permission string (the default of the column) and the new
  user's row for the same client has \<open>a\<close>, the new user's row ends with a space
  followed by \<open>a\<close>, which reads back as the empty token and \<open>a\<close>; the old user's
  row is deleted. And when the old user has two rows for clients on which the new user
  has none, the first row is handed to the new user and leaves the list that the loop is
  iterating, so that the loop ends without visiting the second row, which stays with the
  old user.
\<close>

theorem migrate_permissions_keeps_empty_token:
  "UserClientPermissions_migrate_user 1 2 permission_rows
     = [\<lparr>UserClientPermissions.user_id = 2, client_id = 9, access_permissions = '' a''\<rparr>]
   \<and> str_split CHR '' '' '' a'' = ['''', ''a'']
   \<and> merge_permission_strings operm nperm =
       str_join CHR '' '' (sorted_list_of_set
         (set (str_split CHR '' '' operm) \<union> set (str_split CHR '' '' nperm)))
   \<and> UserClientPermissions_migrate_user 1 2 unmatched_rows
     = [\<lparr>UserClientPermissions.user_id = 2, client_id = 8, access_permissions = ''x''\<rparr>,
        \<lparr>UserClientPermissions.user_id = 1, client_id = 9, access_permissions = ''y''\<rparr>]"
proof -
  have "UserClientPermissions_migrate_user 1 2 permission_rows
     = [\<lparr>UserClientPermissions.user_id = 2, client_id = 9, access_permissions = '' a''\<rparr>]"
    unfolding permission_rows_def by code_simp
  moreover have "UserClientPermissions_migrate_user 1 2 unmatched_rows
     = [\<lparr>UserClientPermissions.user_id = 2, client_id = 8, access_permissions = ''x''\<rparr>,
        \<lparr>UserClientPermissions.user_id = 1, client_id = 9, access_permissions = ''y''\<rparr>]"
    unfolding unmatched_rows_def by code_simp
  ultimately show ?thesis
    by (simp add: merge_permission_strings_union)
qed

subsection \<open>AuthToken.migrate\_user: merging the tokens of two users\<close>

lemma nth_update_preserved:
  "g y = g (xs ! n) \<Longrightarrow> g (xs[n := y] ! i) = g (xs ! i)"
  by (cases "i = n"; cases "n < length xs") (simp_all add: list_update_beyond)

lemma user_id_extend_scope: "AuthToken.user_id (extend_scope a b) = AuthToken.user_id a"
  by (simp add: extend_scope_def AuthToken_set_scope_def)

lemma client_id_extend_scope: "AuthToken.client_id (extend_scope a b) = AuthToken.client_id a"
  by (simp add: extend_scope_def AuthToken_set_scope_def)

lemma migrate_token_cases:
  obtains (merge) n cands where
      "newtokens (AuthToken.client_id (objs ! r)) = Some cands" "n \<in> set cands"
      "AuthToken.user_id (objs ! n) = Some nu"
      "find_newtoken nu newtokens objs r = Some n"
      "migrate_token nu newtokens (objs, del) r
         = (objs[n := extend_scope (objs ! n) (objs ! r)], r # del)"
  | (reassign)
      "find_newtoken nu newtokens objs r = None"
      "migrate_token nu newtokens (objs, del) r
         = (objs[r := (objs ! r)\<lparr>AuthToken.user_id := Some nu\<rparr>], del)"
proof (cases "find_newtoken nu newtokens objs r")
  case None
  then show ?thesis
    by (intro reassign) (simp_all add: migrate_token_def)
next
  case (Some n)
  then obtain cands where c: "newtokens (AuthToken.client_id (objs ! r)) = Some cands"
    and f: "find (\<lambda>n. AuthToken.user_id (objs ! n) = Some nu) cands = Some n"
    by (auto simp: find_newtoken_def split: option.splits)
  from f have "n \<in> set cands" "AuthToken.user_id (objs ! n) = Some nu"
    by (auto simp: find_Some_iff)
  with c Some show ?thesis
    by (intro merge [of cands n]) (simp_all add: migrate_token_def)
qed

lemma migrate_token_length:
  "length (fst (migrate_token nu m (objs, del) r)) = length objs"
  by (rule migrate_token_cases [of m objs r nu del]) simp_all

lemma migrate_token_user_other:
  "i \<noteq> r \<Longrightarrow> AuthToken.user_id (fst (migrate_token nu m (objs, del) r) ! i)
     = AuthToken.user_id (objs ! i)"
  by (rule migrate_token_cases [of m objs r nu del])
     (simp_all add: nth_update_preserved user_id_extend_scope)

lemma migrate_token_client:
  "AuthToken.client_id (fst (migrate_token nu m (objs, del) r) ! i)
     = AuthToken.client_id (objs ! i)"
  by (rule migrate_token_cases [of m objs r nu del])
     (simp_all add: nth_update_preserved client_id_extend_scope)

lemma migrate_token_frame:
  assumes "i \<noteq> r" and "AuthToken.user_id (objs ! i) \<noteq> Some nu"
  shows "fst (migrate_token nu m (objs, del) r) ! i = objs ! i"
proof (rule migrate_token_cases [of m objs r nu del])
  fix n cands
  assume "AuthToken.user_id (objs ! n) = Some nu"
    and "migrate_token nu m (objs, del) r
         = (objs[n := extend_scope (objs ! n) (objs ! r)], r # del)"
  with assms(2) show ?thesis by (cases "i = n") auto
next
  assume "migrate_token nu m (objs, del) r
         = (objs[r := (objs ! r)\<lparr>AuthToken.user_id := Some nu\<rparr>], del)"
  with assms(1) show ?thesis by simp
qed

lemma migrate_token_deleted:
  "set (snd (migrate_token nu m (objs, del) r)) \<subseteq> insert r (set del)
   \<and> set del \<subseteq> set (snd (migrate_token nu m (objs, del) r))"
  by (rule migrate_token_cases [of m objs r nu del]) auto

lemma migrate_token_done:
  "r < length objs \<Longrightarrow>
     r \<in> set (snd (migrate_token nu m (objs, del) r))
     \<or> AuthToken.user_id (fst (migrate_token nu m (objs, del) r) ! r) = Some nu"
  by (rule migrate_token_cases [of m objs r nu del]) simp_all

lemma migrate_token_not_null:
  assumes "AuthToken.user_id (objs ! i) \<noteq> None"
  shows "AuthToken.user_id (fst (migrate_token nu m (objs, del) r) ! i) \<noteq> None"
proof (cases "i = r")
  case False
  with assms show ?thesis by (simp add: migrate_token_user_other)
next
  case True
  show ?thesis
  proof (rule migrate_token_cases [of m objs r nu del])
    fix n cands
    assume "migrate_token nu m (objs, del) r
         = (objs[n := extend_scope (objs ! n) (objs ! r)], r # del)"
    with assms show ?thesis
      by (simp add: nth_update_preserved user_id_extend_scope)
  next
    assume "migrate_token nu m (objs, del) r
         = (objs[r := (objs ! r)\<lparr>AuthToken.user_id := Some nu\<rparr>], del)"
    with assms True show ?thesis
      by (cases "r < length objs") (simp_all add: list_update_beyond)
  qed
qed

lemma migrate_tokens_length:
  "length (fst (foldl (migrate_token nu m) (objs, del) rs)) = length objs"
proof (induction rs arbitrary: objs del)
  case Nil
  show ?case by simp
next
  case (Cons r rs)
  obtain objs1 del1 where s: "migrate_token nu m (objs, del) r = (objs1, del1)"
    by (cases "migrate_token nu m (objs, del) r")
  with Cons [of objs1 del1] migrate_token_length [of nu m objs del r]
  show ?case by simp
qed

lemma migrate_tokens_client:
  "AuthToken.client_id (fst (foldl (migrate_token nu m) (objs, del) rs) ! i)
     = AuthToken.client_id (objs ! i)"
proof (induction rs arbitrary: objs del)
  case Nil
  show ?case by simp
next
  case (Cons r rs)
  obtain objs1 del1 where s: "migrate_token nu m (objs, del) r = (objs1, del1)"
    by (cases "migrate_token nu m (objs, del) r")
  with Cons [of objs1 del1] migrate_token_client [of nu m objs del r i]
  show ?case by simp
qed

lemma migrate_tokens_user_other:
  "i \<notin> set rs \<Longrightarrow>
     AuthToken.user_id (fst (foldl (migrate_token nu m) (objs, del) rs) ! i)
       = AuthToken.user_id (objs ! i)"
proof (induction rs arbitrary: objs del)
  case Nil
  show ?case by simp
next
  case (Cons r rs)
  obtain objs1 del1 where s: "migrate_token nu m (objs, del) r = (objs1, del1)"
    by (cases "migrate_token nu m (objs, del) r")
  from Cons.prems have "i \<noteq> r" "i \<notin> set rs" by auto
  with Cons.IH [of objs1 del1] s migrate_token_user_other [of i r nu m objs del]
  show ?case by simp
qed

lemma migrate_tokens_frame:
  "i \<notin> set rs \<Longrightarrow> AuthToken.user_id (objs ! i) \<noteq> Some nu \<Longrightarrow>
     fst (foldl (migrate_token nu m) (objs, del) rs) ! i = objs ! i"
proof (induction rs arbitrary: objs del)
  case Nil
  show ?case by simp
next
  case (Cons r rs)
  obtain objs1 del1 where s: "migrate_token nu m (objs, del) r = (objs1, del1)"
    by (cases "migrate_token nu m (objs, del) r")
  from Cons.prems have i: "i \<noteq> r" "i \<notin> set rs" by auto
  with Cons.prems(2) s migrate_token_frame [of i r objs nu m del]
  have "objs1 ! i = objs ! i" by simp
  with Cons.IH [of objs1 del1] i Cons.prems(2) s show ?case by simp
qed

lemma migrate_tokens_deleted:
  "set (snd (foldl (migrate_token nu m) (objs, del) rs)) \<subseteq> set del \<union> set rs
   \<and> set del \<subseteq> set (snd (foldl (migrate_token nu m) (objs, del) rs))"
proof (induction rs arbitrary: objs del)
  case Nil
  show ?case by simp
next
  case (Cons r rs)
  obtain objs1 del1 where s: "migrate_token nu m (objs, del) r = (objs1, del1)"
    by (cases "migrate_token nu m (objs, del) r")
  with migrate_token_deleted [of nu m objs del r]
  have "set del1 \<subseteq> insert r (set del)" "set del \<subseteq> set del1" by simp_all
  with Cons.IH [of objs1 del1] s show ?case by auto
qed

lemma migrate_tokens_done:
  "\<forall>r\<in>set rs. r < length objs \<Longrightarrow> i \<in> set rs \<Longrightarrow>
     i \<in> set (snd (foldl (migrate_token nu m) (objs, del) rs))
     \<or> AuthToken.user_id (fst (foldl (migrate_token nu m) (objs, del) rs) ! i) = Some nu"
proof (induction rs arbitrary: objs del)
  case Nil
  then show ?case by simp
next
  case (Cons r rs)
  obtain objs1 del1 where s: "migrate_token nu m (objs, del) r = (objs1, del1)"
    by (cases "migrate_token nu m (objs, del) r")
  have l: "length objs1 = length objs"
    using s migrate_token_length [of nu m objs del r] by simp
  show ?case
  proof (cases "i \<in> set rs")
    case True
    with Cons.IH [of objs1 del1] Cons.prems(1) l s show ?thesis by simp
  next
    case False
    with Cons.prems(2) have "i = r" by simp
    with Cons.prems(1) s migrate_token_done [of r objs nu m del]
    have "i \<in> set del1 \<or> AuthToken.user_id (objs1 ! i) = Some nu" by simp
    with False s migrate_tokens_user_other [of i rs nu m objs1 del1]
      migrate_tokens_deleted [of nu m objs1 del1 rs]
    show ?thesis by auto
  qed
qed

lemma migrate_tokens_not_null:
  "AuthToken.user_id (objs ! i) \<noteq> None \<Longrightarrow>
     AuthToken.user_id (fst (foldl (migrate_token nu m) (objs, del) rs) ! i) \<noteq> None"
proof (induction rs arbitrary: objs del)
  case Nil
  then show ?case by simp
next
  case (Cons r rs)
  obtain objs1 del1 where s: "migrate_token nu m (objs, del) r = (objs1, del1)"
    by (cases "migrate_token nu m (objs, del) r")
  with Cons.prems migrate_token_not_null [of objs i nu m del r]
  have "AuthToken.user_id (objs1 ! i) \<noteq> None" by simp
  with Cons.IH [of objs1 del1] s show ?case by simp
qed

lemma find_newtoken_Some:
  "find_newtoken nu m objs r = Some n \<Longrightarrow>
     \<exists>cands. m (AuthToken.client_id (objs ! r)) = Some cands \<and> n \<in> set cands"
  by (auto simp: find_newtoken_def find_Some_iff split: option.splits)

lemma migrate_token_merge:
  "find_newtoken nu m objs r = Some n \<Longrightarrow>
     migrate_token nu m (objs, del) r = (objs[n := extend_scope (objs ! n) (objs ! r)], r # del)"
  by (simp add: migrate_token_def)

lemma migrate_token_other_target:
  "find_newtoken nu m objs r \<noteq> Some n \<Longrightarrow> n \<noteq> r \<Longrightarrow>
     fst (migrate_token nu m (objs, del) r) ! n = objs ! n"
  by (rule migrate_token_cases [of m objs r nu del]) auto

lemma migrate_tokens_merge:
  assumes "distinct rs"
    and "\<forall>r\<in>set rs. AuthToken.user_id (objs ! r) \<noteq> Some nu"
    and "n < length objs" and "AuthToken.user_id (objs ! n) = Some nu"
    and "AuthToken.client_id (objs ! n) = c"
    and "m c = Some [n]"
    and "\<forall>c' cands. m c' = Some cands \<longrightarrow> c' \<noteq> c \<longrightarrow> n \<notin> set cands"
    and "\<forall>r\<in>set rs. (AuthToken.client_id (objs ! r) = c) = (r = x)"
  shows "fst (foldl (migrate_token nu m) (objs, del) rs) ! n
           = (if x \<in> set rs then extend_scope (objs ! n) (objs ! x) else objs ! n)
         \<and> (x \<in> set rs \<longrightarrow> x \<in> set (snd (foldl (migrate_token nu m) (objs, del) rs)))"
  using assms
proof (induction rs arbitrary: objs del)
  case Nil
  show ?case by simp
next
  case (Cons r rs)
  obtain objs1 del1 where s: "migrate_token nu m (objs, del) r = (objs1, del1)"
    by (cases "migrate_token nu m (objs, del) r")
  have r: "r \<notin> set rs" "distinct rs" "AuthToken.user_id (objs ! r) \<noteq> Some nu"
    using Cons.prems(1,2) by simp_all
  then have nr: "n \<noteq> r" using Cons.prems(4) by auto
  have cl: "\<And>i. AuthToken.client_id (objs1 ! i) = AuthToken.client_id (objs ! i)"
    using s migrate_token_client [of nu m objs del r] by simp
  have us: "\<And>i. i \<noteq> r \<Longrightarrow> AuthToken.user_id (objs1 ! i) = AuthToken.user_id (objs ! i)"
    using s migrate_token_user_other [of _ r nu m objs del] by simp
  have l: "length objs1 = length objs"
    using s migrate_token_length [of nu m objs del r] by simp
  have p2: "\<forall>r\<in>set rs. AuthToken.user_id (objs1 ! r) \<noteq> Some nu"
  proof
    fix r' assume a: "r' \<in> set rs"
    with r(1) have "r' \<noteq> r" by auto
    with us [of r'] Cons.prems(2) a show "AuthToken.user_id (objs1 ! r') \<noteq> Some nu"
      by simp
  qed
  have p8: "\<forall>r\<in>set rs. (AuthToken.client_id (objs1 ! r) = c) = (r = x)"
    using Cons.prems(8) cl by simp
  have p3: "n < length objs1" using l Cons.prems(3) by simp
  have p4: "AuthToken.user_id (objs1 ! n) = Some nu" using us [OF nr] Cons.prems(4) by simp
  have p5: "AuthToken.client_id (objs1 ! n) = c" using cl Cons.prems(5) by simp
  note IH = Cons.IH [of objs1 del1, OF r(2) p2 p3 p4 p5 Cons.prems(6,7) p8]
  show ?case
  proof (cases "r = x")
    case True
    with Cons.prems(8) have "AuthToken.client_id (objs ! r) = c" by simp
    with Cons.prems(4,6) have "find_newtoken nu m objs r = Some n"
      by (simp add: find_newtoken_def)
    with s migrate_token_merge [of nu m objs r n del]
    have o1: "objs1 = objs[n := extend_scope (objs ! n) (objs ! r)]" and d1: "del1 = r # del"
      by simp_all
    from o1 Cons.prems(3) have "objs1 ! n = extend_scope (objs ! n) (objs ! r)"
      by simp
    moreover have "r \<in> set (snd (foldl (migrate_token nu m) (objs1, del1) rs))"
      using d1 migrate_tokens_deleted [of nu m objs1 del1 rs] by auto
    ultimately show ?thesis
      using IH True r(1) s by simp
  next
    case False
    with Cons.prems(8) have c: "AuthToken.client_id (objs ! r) \<noteq> c" by simp
    have "find_newtoken nu m objs r \<noteq> Some n"
    proof
      assume "find_newtoken nu m objs r = Some n"
      then obtain cands where "m (AuthToken.client_id (objs ! r)) = Some cands" "n \<in> set cands"
        using find_newtoken_Some by blast
      with Cons.prems(7) c show False by blast
    qed
    with s nr migrate_token_other_target [of nu m objs r n del]
    have n1: "objs1 ! n = objs ! n" by simp
    have "x \<in> set rs \<Longrightarrow> objs1 ! x = objs ! x"
    proof -
      assume "x \<in> set rs"
      with Cons.prems(2) have "AuthToken.user_id (objs ! x) \<noteq> Some nu" by simp
      with False s migrate_token_frame [of x r objs nu m del] show ?thesis by auto
    qed
    with IH n1 False s show ?thesis by auto
  qed
qed

lemma newtokens_of_conv:
  "newtokens_of objs rs c =
     (if filter (\<lambda>r. AuthToken.client_id (objs ! r) = c) rs = [] then None
      else Some (filter (\<lambda>r. AuthToken.client_id (objs ! r) = c) rs))"
proof (induction rs arbitrary: c rule: rev_induct)
  case Nil
  show ?case by (simp add: newtokens_of_def)
next
  case (snoc r rs)
  have "newtokens_of objs (rs @ [r])
      = setdefault_append (newtokens_of objs rs) (AuthToken.client_id (objs ! r)) r"
    by (simp add: newtokens_of_def)
  with snoc show ?case
    by (simp add: setdefault_append_def)
qed

lemma filter_nth_conv:
  "filter P xs = map ((!) xs) (filter (\<lambda>i. P (xs ! i)) [0..<length xs])"
proof -
  have "filter P (map ((!) xs) [0..<length xs])
      = map ((!) xs) (filter (\<lambda>i. P (xs ! i)) [0..<length xs])"
    by (simp add: filter_map o_def)
  then show ?thesis by (simp add: map_nth)
qed

lemma filter_upt_eq: "filter (\<lambda>i. i = n) [0..<k] = (if n < k then [n] else [])"
  by (induction k) auto

lemma filter_upt_single:
  assumes "n < k" and "\<And>i. i < k \<Longrightarrow> P i = (i = n)"
  shows "filter P [0..<k] = [n]"
proof -
  have "filter P [0..<k] = filter (\<lambda>i. i = n) [0..<k]"
    by (rule filter_cong) (simp_all add: assms(2))
  with assms(1) show ?thesis by (simp add: filter_upt_eq)
qed

lemma filter_single_index:
  "filter P xs = [a] \<Longrightarrow>
     \<exists>n<length xs. xs ! n = a \<and> P a \<and> (\<forall>i<length xs. P (xs ! i) \<longrightarrow> i = n)"
proof (induction xs)
  case Nil
  then show ?case by simp
next
  case (Cons x xs)
  show ?case
  proof (cases "P x")
    case True
    with Cons.prems have a: "x = a" and e: "filter P xs = []" by simp_all
    from e have "\<forall>y\<in>set xs. \<not> P y" by (simp add: filter_empty_conv)
    then have "\<forall>i<length (x # xs). P ((x # xs) ! i) \<longrightarrow> i = 0"
      by (auto simp: nth_Cons')
    with a True show ?thesis by (intro exI [of _ 0]) simp
  next
    case False
    with Cons obtain n where n: "n < length xs" "xs ! n = a" "P a"
      "\<forall>i<length xs. P (xs ! i) \<longrightarrow> i = n"
      by auto
    from n(4) False have "\<forall>i<length (x # xs). P ((x # xs) ! i) \<longrightarrow> i = Suc n"
      by (auto simp: nth_Cons split: nat.splits)
    with n(1-3) show ?thesis by (intro exI [of _ "Suc n"]) simp
  qed
qed

lemma flush_filter:
  "filter P (flush s)
     = map ((!) (fst s))
         (filter (\<lambda>i. i \<notin> set (snd s) \<and> P (fst s ! i)) [0..<length (fst s)])"
  by (cases s) (simp add: flush_def filter_map o_def)

lemma flush_nothing: "flush (objs, []) = objs"
  by (simp add: flush_def map_nth)

lemma AuthToken_migrate_user_unfold:
  "AuthToken_migrate_user (Some ou) (Some nu) table =
     flush (foldl (migrate_token nu (newtokens_of table (AuthToken_filter_by_user table nu)))
              (table, []) (AuthToken_filter_by_user table ou))"
  by (simp add: AuthToken_migrate_user_def Let_def)

lemma in_filter_by_user:
  "i \<in> set (AuthToken_filter_by_user table u)
     \<longleftrightarrow> i < length table \<and> AuthToken.user_id (table ! i) = Some u"
  by (auto simp: AuthToken_filter_by_user_def)

lemma scope_extend_scope:
  "set (AuthToken_scope (extend_scope a b)) = set (AuthToken_scope a) \<union> set (AuthToken_scope b)"
proof -
  let ?S = "set (AuthToken_scope a) \<union> set (AuthToken_scope b)"
  have f: "finite ?S" by simp
  have "?S \<noteq> {}"
    by (simp add: AuthToken_scope_def str_split_not_Nil)
  with f have "sorted_list_of_set ?S \<noteq> []"
    by (metis f set_sorted_list_of_set set_empty)
  moreover have "\<forall>w\<in>set (sorted_list_of_set ?S). CHR '' '' \<notin> set w"
    using f by (auto simp: AuthToken_scope_def dest: str_split_no_sep)
  ultimately have "str_split CHR '' '' (str_join CHR '' '' (sorted_list_of_set ?S))
      = sorted_list_of_set ?S"
    by (rule str_split_join)
  then have "AuthToken_scope (extend_scope a b) = sorted_list_of_set ?S"
    by (simp add: extend_scope_def AuthToken_set_scope_def AuthToken_scope_def)
  with f show ?thesis by simp
qed

lemma migrated_null_rows:
  "filter (\<lambda>t. AuthToken.user_id t = None) (AuthToken_migrate_user old new table)
     = filter (\<lambda>t. AuthToken.user_id t = None) table"
proof (cases "\<exists>ou nu. old = Some ou \<and> new = Some nu")
  case False
  then have "AuthToken_migrate_user old new table = table"
    by (cases old; cases new) (simp_all add: AuthToken_migrate_user_def)
  then show ?thesis by simp
next
  case True
  then obtain ou nu where on: "old = Some ou" "new = Some nu" by blast
  let ?m = "newtokens_of table (AuthToken_filter_by_user table nu)"
  let ?rs = "AuthToken_filter_by_user table ou"
  let ?st = "foldl (migrate_token nu ?m) (table, []) ?rs"
  have len: "length (fst ?st) = length table"
    by (rule migrate_tokens_length)
  have iff: "(i \<notin> set (snd ?st) \<and> AuthToken.user_id (fst ?st ! i) = None)
      = (AuthToken.user_id (table ! i) = None)" if "i < length table" for i
  proof (cases "AuthToken.user_id (table ! i) = None")
    case True
    then have n: "i \<notin> set ?rs" by (simp add: in_filter_by_user)
    with True have "fst ?st ! i = table ! i"
      by (intro migrate_tokens_frame) simp_all
    moreover have "i \<notin> set (snd ?st)"
      using n migrate_tokens_deleted [of nu ?m table "[]" ?rs] by auto
    ultimately show ?thesis using True by simp
  next
    case False
    then have "AuthToken.user_id (fst ?st ! i) \<noteq> None"
      by (rule migrate_tokens_not_null)
    with False show ?thesis by blast
  qed
  have same: "fst ?st ! i = table ! i" if "AuthToken.user_id (table ! i) = None" for i
  proof -
    from that have "i \<notin> set ?rs" by (simp add: in_filter_by_user)
    with that show ?thesis by (intro migrate_tokens_frame) simp_all
  qed
  have "filter (\<lambda>t. AuthToken.user_id t = None) (flush ?st)
      = map ((!) (fst ?st))
          (filter (\<lambda>i. AuthToken.user_id (table ! i) = None) [0..<length table])"
    unfolding flush_filter len
    by (rule arg_cong [where f = "map ((!) (fst ?st))"], rule filter_cong) (simp_all add: iff)
  also have "\<dots> = map ((!) table)
          (filter (\<lambda>i. AuthToken.user_id (table ! i) = None) [0..<length table])"
    by (rule map_cong) (simp_all add: same)
  also have "\<dots> = filter (\<lambda>t. AuthToken.user_id t = None) table"
    by (rule filter_nth_conv [symmetric])
  finally show ?thesis
    by (simp add: on AuthToken_migrate_user_unfold)
qed

lemma migrated_no_old_rows:
  assumes "ou \<noteq> nu"
  shows "filter (\<lambda>t. AuthToken.user_id t = Some ou)
           (AuthToken_migrate_user (Some ou) (Some nu) table) = []"
proof -
  let ?m = "newtokens_of table (AuthToken_filter_by_user table nu)"
  let ?rs = "AuthToken_filter_by_user table ou"
  let ?st = "foldl (migrate_token nu ?m) (table, []) ?rs"
  have len: "length (fst ?st) = length table"
    by (rule migrate_tokens_length)
  have "\<not> (i \<notin> set (snd ?st) \<and> AuthToken.user_id (fst ?st ! i) = Some ou)"
    if "i < length table" for i
  proof (cases "i \<in> set ?rs")
    case True
    have "\<forall>r\<in>set ?rs. r < length table" by (simp add: in_filter_by_user)
    from migrate_tokens_done [OF this True, of nu ?m "[]"] assms
    show ?thesis by auto
  next
    case False
    with that have "AuthToken.user_id (table ! i) \<noteq> Some ou"
      by (simp add: in_filter_by_user)
    with False migrate_tokens_user_other [of i ?rs nu ?m table "[]"]
    show ?thesis by simp
  qed
  then have "filter (\<lambda>i. i \<notin> set (snd ?st) \<and> AuthToken.user_id (fst ?st ! i) = Some ou)
      [0..<length table] = []"
    by (simp add: filter_empty_conv)
  then show ?thesis
    by (simp add: AuthToken_migrate_user_unfold flush_filter len)
qed

lemma migrate_nothing:
  assumes "filter (\<lambda>t. AuthToken.user_id t = Some ou) table = []"
  shows "AuthToken_migrate_user (Some ou) new table = table"
proof -
  from assms have "\<forall>t\<in>set table. AuthToken.user_id t \<noteq> Some ou"
    by (simp add: filter_empty_conv)
  then have "AuthToken_filter_by_user table ou = []"
    by (simp add: AuthToken_filter_by_user_def filter_empty_conv)
  then show ?thesis
    by (cases new) (simp_all add: AuthToken_migrate_user_def flush_nothing)
qed

lemma migrated_merged_row:
  assumes "ou \<noteq> nu"
    and newtok: "filter (\<lambda>t. AuthToken.user_id t = Some nu \<and> AuthToken.client_id t = c) table = [newtok]"
    and oldtok: "filter (\<lambda>t. AuthToken.user_id t = Some ou \<and> AuthToken.client_id t = c) table = [oldtok]"
  shows "filter (\<lambda>t. AuthToken.user_id t = Some nu \<and> AuthToken.client_id t = c)
           (AuthToken_migrate_user (Some ou) (Some nu) table) = [extend_scope newtok oldtok]"
proof -
  let ?new = "AuthToken_filter_by_user table nu"
  let ?m = "newtokens_of table ?new"
  let ?rs = "AuthToken_filter_by_user table ou"
  let ?st = "foldl (migrate_token nu ?m) (table, []) ?rs"
  have len: "length (fst ?st) = length table"
    by (rule migrate_tokens_length)
  from filter_single_index [OF newtok] obtain n where n: "n < length table" "table ! n = newtok"
    "AuthToken.user_id newtok = Some nu" "AuthToken.client_id newtok = c"
    and nu: "\<And>i. i < length table \<Longrightarrow> AuthToken.user_id (table ! i) = Some nu
        \<Longrightarrow> AuthToken.client_id (table ! i) = c \<Longrightarrow> i = n"
    by blast
  from filter_single_index [OF oldtok] obtain x where x: "x < length table" "table ! x = oldtok"
    "AuthToken.user_id oldtok = Some ou" "AuthToken.client_id oldtok = c"
    and xu: "\<And>i. i < length table \<Longrightarrow> AuthToken.user_id (table ! i) = Some ou
        \<Longrightarrow> AuthToken.client_id (table ! i) = c \<Longrightarrow> i = x"
    by blast
  have xrs: "x \<in> set ?rs" and nrs: "n \<notin> set ?rs"
    using x n assms(1) by (simp_all add: in_filter_by_user)
  have cands: "filter (\<lambda>r. AuthToken.client_id (table ! r) = c') ?new
      = filter (\<lambda>r. AuthToken.user_id (table ! r) = Some nu \<and> AuthToken.client_id (table ! r) = c')
          [0..<length table]" for c'
    by (simp add: AuthToken_filter_by_user_def)
  have "(AuthToken.user_id (table ! i) = Some nu \<and> AuthToken.client_id (table ! i) = c) = (i = n)"
    if "i < length table" for i
    using that n nu [of i] by blast
  with n(1) have "filter (\<lambda>r. AuthToken.user_id (table ! r) = Some nu \<and> AuthToken.client_id (table ! r) = c)
          [0..<length table] = [n]"
    by (intro filter_upt_single)
  then have mc: "?m c = Some [n]"
    unfolding newtokens_of_conv cands by simp
  have mo: "\<forall>c' cs. ?m c' = Some cs \<longrightarrow> c' \<noteq> c \<longrightarrow> n \<notin> set cs"
  proof (intro allI impI)
    fix c' cs
    assume a: "?m c' = Some cs" and b: "c' \<noteq> c"
    from a have "cs = filter (\<lambda>r. AuthToken.client_id (table ! r) = c') ?new"
      by (simp add: newtokens_of_conv split: if_splits)
    then have "\<forall>r\<in>set cs. AuthToken.client_id (table ! r) = c'"
      by simp
    with b n(2,4) show "n \<notin> set cs" by auto
  qed
  have d: "distinct ?rs"
    by (simp add: AuthToken_filter_by_user_def)
  have u: "\<forall>r\<in>set ?rs. AuthToken.user_id (table ! r) \<noteq> Some nu"
    using assms(1) by (simp add: in_filter_by_user)
  have cx: "\<forall>r\<in>set ?rs. (AuthToken.client_id (table ! r) = c) = (r = x)"
  proof
    fix r assume "r \<in> set ?rs"
    then have "r < length table" "AuthToken.user_id (table ! r) = Some ou"
      by (simp_all add: in_filter_by_user)
    with xu [of r] x show "(AuthToken.client_id (table ! r) = c) = (r = x)"
      by blast
  qed
  have nn: "AuthToken.user_id (table ! n) = Some nu" "AuthToken.client_id (table ! n) = c"
    using n by simp_all
  from migrate_tokens_merge [OF d u n(1) nn mc mo cx, of "[]"] xrs n(2) x(2)
  have row: "fst ?st ! n = extend_scope newtok oldtok" and xdel: "x \<in> set (snd ?st)"
    by simp_all
  have "(i \<notin> set (snd ?st) \<and> AuthToken.user_id (fst ?st ! i) = Some nu
        \<and> AuthToken.client_id (fst ?st ! i) = c) = (i = n)"
    if i: "i < length table" for i
  proof (cases "i = n")
    case True
    have "n \<notin> set (snd ?st)"
      using nrs migrate_tokens_deleted [of nu ?m table "[]" ?rs] by auto
    with True row n show ?thesis
      by (simp add: user_id_extend_scope client_id_extend_scope)
  next
    case False
    have "\<not> (i \<notin> set (snd ?st) \<and> AuthToken.user_id (fst ?st ! i) = Some nu
        \<and> AuthToken.client_id (table ! i) = c)"
    proof (cases "i \<in> set ?rs")
      case True
      with cx xdel show ?thesis by auto
    next
      case False
      with migrate_tokens_user_other [of i ?rs nu ?m table "[]"]
      have "AuthToken.user_id (fst ?st ! i) = AuthToken.user_id (table ! i)" by simp
      with nu [OF i] \<open>i \<noteq> n\<close> show ?thesis by auto
    qed
    with False show ?thesis by (simp add: migrate_tokens_client)
  qed
  with n(1) have "filter (\<lambda>i. i \<notin> set (snd ?st) \<and> AuthToken.user_id (fst ?st ! i) = Some nu
        \<and> AuthToken.client_id (fst ?st ! i) = c) [0..<length table] = [n]"
    by (intro filter_upt_single) simp_all
  with row show ?thesis
    by (simp add: AuthToken_migrate_user_unfold flush_filter len)
qed

text \<open>
  C1. Let the old and the new user be different, and let the table hold exactly one token
  of the new user and exactly one token of the old user for the client \<open>c\<close>. After
  \<^verbatim>\<open>AuthToken.migrate_user\<close> the table holds exactly one token of the new user
  for \<open>c\<close>: the new user's token, changed in its scope only, which reads as the
  union of the two scopes. No token of the old user is left, for \<open>c\<close> or any other
  client, and migrating the same pair again changes nothing. The tokens without a user
  are the same before and after, whatever two users, or None, are passed.
\<close>

theorem AuthToken_migrate_user_merges:
  assumes "olduser \<noteq> newuser"
    and "filter (\<lambda>t. AuthToken.user_id t = Some newuser \<and> AuthToken.client_id t = c) table
           = [newtoken]"
    and "filter (\<lambda>t. AuthToken.user_id t = Some olduser \<and> AuthToken.client_id t = c) table
           = [oldtoken]"
  shows "filter (\<lambda>t. AuthToken.user_id t = Some newuser \<and> AuthToken.client_id t = c)
           (AuthToken_migrate_user (Some olduser) (Some newuser) table)
           = [extend_scope newtoken oldtoken]
    \<and> extend_scope newtoken oldtoken
           = newtoken\<lparr>AuthToken.scope := AuthToken.scope (extend_scope newtoken oldtoken)\<rparr>
    \<and> set (AuthToken_scope (extend_scope newtoken oldtoken))
           = set (AuthToken_scope newtoken) \<union> set (AuthToken_scope oldtoken)
    \<and> filter (\<lambda>t. AuthToken.user_id t = Some olduser)
           (AuthToken_migrate_user (Some olduser) (Some newuser) table) = []
    \<and> AuthToken_migrate_user (Some olduser) (Some newuser)
           (AuthToken_migrate_user (Some olduser) (Some newuser) table)
           = AuthToken_migrate_user (Some olduser) (Some newuser) table
    \<and> filter (\<lambda>t. AuthToken.user_id t = None) (AuthToken_migrate_user x y table)
           = filter (\<lambda>t. AuthToken.user_id t = None) table"
proof -
  have 1: "filter (\<lambda>t. AuthToken.user_id t = Some newuser \<and> AuthToken.client_id t = c)
           (AuthToken_migrate_user (Some olduser) (Some newuser) table)
           = [extend_scope newtoken oldtoken]"
    using assms by (rule migrated_merged_row)
  have 2: "extend_scope newtoken oldtoken
           = newtoken\<lparr>AuthToken.scope := AuthToken.scope (extend_scope newtoken oldtoken)\<rparr>"
    by (simp add: extend_scope_def AuthToken_set_scope_def)
  have 3: "filter (\<lambda>t. AuthToken.user_id t = Some olduser)
           (AuthToken_migrate_user (Some olduser) (Some newuser) table) = []"
    using assms(1) by (rule migrated_no_old_rows)
  then have 4: "AuthToken_migrate_user (Some olduser) (Some newuser)
           (AuthToken_migrate_user (Some olduser) (Some newuser) table)
           = AuthToken_migrate_user (Some olduser) (Some newuser) table"
    by (rule migrate_nothing)
  from 1 2 3 4 show ?thesis
    by (simp only: scope_extend_scope migrated_null_rows simp_thms)
qed

theorem AuthToken_migrate_user_merges_witness:
  "(1::nat) \<noteq> 2
   \<and> filter (\<lambda>t. AuthToken.user_id t = Some 2 \<and> AuthToken.client_id t = 9) tokens = [tokens ! 1]
   \<and> filter (\<lambda>t. AuthToken.user_id t = Some 1 \<and> AuthToken.client_id t = 9) tokens = [tokens ! 0]
   \<and> filter (\<lambda>t. AuthToken.user_id t = Some 2 \<and> AuthToken.client_id t = 9)
        (AuthToken_migrate_user (Some 1) (Some 2) tokens)
        = [(tokens ! 1)\<lparr>AuthToken.scope := ''a b c''\<rparr>]
   \<and> filter (\<lambda>t. AuthToken.user_id t = Some 1) (AuthToken_migrate_user (Some 1) (Some 2) tokens) = []
   \<and> AuthToken_migrate_user (Some 1) (Some 2) (AuthToken_migrate_user (Some 1) (Some 2) tokens)
        = AuthToken_migrate_user (Some 1) (Some 2) tokens
   \<and> filter (\<lambda>t. AuthToken.user_id t = None) (AuthToken_migrate_user (Some 1) (Some 2) tokens)
        = [tokens ! 2]"
proof -
  have a: "(1::nat) \<noteq> 2" by simp
  have b: "filter (\<lambda>t. AuthToken.user_id t = Some 2 \<and> AuthToken.client_id t = 9) tokens
      = [tokens ! 1]"
    by (simp add: tokens_def)
  have c: "filter (\<lambda>t. AuthToken.user_id t = Some 1 \<and> AuthToken.client_id t = 9) tokens
      = [tokens ! 0]"
    by (simp add: tokens_def)
  have "sorted_list_of_set (set [''c'', ''a''] \<union> set [''b'', ''a'']) = [''a'', ''b'', ''c'']"
    by code_simp
  then have e: "extend_scope (tokens ! 1) (tokens ! 0) = (tokens ! 1)\<lparr>AuthToken.scope := ''a b c''\<rparr>"
    by (simp add: extend_scope_def AuthToken_set_scope_def AuthToken_scope_def tokens_def)
  have n: "filter (\<lambda>t. AuthToken.user_id t = None) tokens = [tokens ! 2]"
    by (simp add: tokens_def)
  from AuthToken_migrate_user_merges [OF a b c, of "Some 1" "Some 2"] a b c e n
  show ?thesis by simp
qed

end
